theory Spec2Isabelle
  imports Main "HOL-Library.Multiset" "HOL-Library.Word"
begin

section \<open>Text, runes and character classes\<close>

text \<open>
  The program (\<^verbatim>\<open>main.go\<close>) reads a text file line by line, extracts four token
  streams from every line with four regular expressions, counts the tokens in four
  frequency maps, keeps them in four lists, ranks two of the maps by frequency and writes
  four output files.

  A Go string is a byte sequence, and the \<^verbatim>\<open>regexp\<close>, \<^verbatim>\<open>strings\<close> and
  \<^verbatim>\<open>unicode\<close> packages read it rune by rune (a byte that is not part of a valid UTF-8
  sequence is read as the rune U+FFFD). The model works on the decoded text: a string is
  the list of its runes, a rune is its code point.
\<close>

type_synonym rune = nat

type_synonym gostring = "rune list"

definition runes :: "string \<Rightarrow> gostring" where
  "runes s = map of_char s"

text \<open>
  A character class is a list of inclusive ranges, as a bracket expression of the pattern
  syntax lists them and as a \<^verbatim>\<open>unicode.RangeTable\<close> stores them.
\<close>

type_synonym range_table = "(rune \<times> rune) list"

definition in_class :: "range_table \<Rightarrow> rune \<Rightarrow> bool" where
  "in_class rs c = list_ex (\<lambda>(lo, hi). lo \<le> c \<and> c \<le> hi) rs"

text \<open>
  The tables of the \<^verbatim>\<open>unicode\<close> package are not part of the repository and differ
  between releases of the toolchain; the model takes them as parameters: the script table
  \<^verbatim>\<open>unicode.Han\<close> behind \<^verbatim>\<open>\p{Han}\<close>, the property table
  \<^verbatim>\<open>unicode.White_Space\<close> and the lower-case mapping of the case tables.
\<close>

record unicode_tables =
  Han :: range_table
  White_Space :: range_table
  LowerCase :: "rune \<Rightarrow> rune"

text \<open>
  \<^verbatim>\<open>unicode.ToLower\<close> and \<^verbatim>\<open>unicode.IsSpace\<close> decide the ASCII and Latin-1 runes
  themselves and consult the tables only beyond them.
\<close>

definition unicode_ToLower :: "unicode_tables \<Rightarrow> rune \<Rightarrow> rune" where
  "unicode_ToLower U r =
     (if r \<le> 0x7F then (if 0x41 \<le> r \<and> r \<le> 0x5A then r + (0x61 - 0x41) else r)
      else LowerCase U r)"

definition unicode_IsSpace :: "unicode_tables \<Rightarrow> rune \<Rightarrow> bool" where
  "unicode_IsSpace U r =
     (if r \<le> 0xFF then r \<in> set [0x09, 0x0A, 0x0B, 0x0C, 0x0D, 0x20, 0x85, 0xA0]
      else in_class (White_Space U) r)"

text \<open>
  \<^verbatim>\<open>strings.ToLower\<close> maps every rune with \<^verbatim>\<open>unicode.ToLower\<close> (its ASCII fast
  path computes the same); \<^verbatim>\<open>strings.TrimSpace\<close> removes the leading and the trailing
  runes that \<^verbatim>\<open>unicode.IsSpace\<close> accepts.
\<close>

definition strings_ToLower :: "unicode_tables \<Rightarrow> gostring \<Rightarrow> gostring" where
  "strings_ToLower U s = map (unicode_ToLower U) s"

definition strings_TrimSpace :: "unicode_tables \<Rightarrow> gostring \<Rightarrow> gostring" where
  "strings_TrimSpace U s =
     rev (dropWhile (unicode_IsSpace U) (rev (dropWhile (unicode_IsSpace U) s)))"

section \<open>The regexp package\<close>

text \<open>
  The four patterns use character classes, the ASCII word boundary \<^verbatim>\<open>\b\<close>,
  concatenation, the greedy operators \<^verbatim>\<open>?\<close>, \<^verbatim>\<open>*\<close> and \<^verbatim>\<open>+\<close>, and one
  non-capturing group. \<^verbatim>\<open>x+\<close> is \<^verbatim>\<open>xx*\<close>.
\<close>

datatype re = Cls range_table | WordB | Cat re re | Opt re | Star re

abbreviation Plus :: "re \<Rightarrow> re" where
  "Plus a \<equiv> Cat a (Star a)"

text \<open>
  The Perl classes of the pattern syntax are ASCII-only: \<^verbatim>\<open>\w\<close> is
  \<^verbatim>\<open>[0-9A-Za-z_]\<close> and \<^verbatim>\<open>\s\<close> is \<^verbatim>\<open>[\t\n\f\r ]\<close>.
\<close>

definition perl_w :: range_table where
  "perl_w = [(0x30, 0x39), (0x41, 0x5A), (0x5F, 0x5F), (0x61, 0x7A)]"

definition perl_s :: range_table where
  "perl_s = [(0x09, 0x0A), (0x0C, 0x0D), (0x20, 0x20)]"

fun isWordChar :: "rune option \<Rightarrow> bool" where
  "isWordChar None = False"
| "isWordChar (Some c) = in_class perl_w c"

text \<open>
  Matching at a position needs the rune before the position (for \<^verbatim>\<open>\b\<close>) and the
  text from the position on. \<open>after p m\<close> is the rune before the position reached by
  consuming \<open>m\<close>; \<open>lookahead\<close> is the rune at the position.
\<close>

fun after :: "rune option \<Rightarrow> gostring \<Rightarrow> rune option" where
  "after p [] = p"
| "after p (c # cs) = Some (last (c # cs))"

fun lookahead :: "gostring \<Rightarrow> rune option" where
  "lookahead [] = None"
| "lookahead (c # cs) = Some c"

text \<open>
  The package documents leftmost-first matching: among the matches that begin at the
  leftmost possible position it returns the one that a backtracking search finds first.
  \<open>rmatch r p cs\<close> lists, in the order in which a backtracking search reaches them, the
  ways \<open>r\<close> matches a prefix of \<open>cs\<close>: each as the matched text and the rest. A greedy
  operator tries its operand before it tries to do without. A repetition stops after an
  iteration that consumed nothing.
\<close>

function rmatch :: "re \<Rightarrow> rune option \<Rightarrow> gostring \<Rightarrow> (gostring \<times> gostring) list" where
  "rmatch (Cls rs) p [] = []"
| "rmatch (Cls rs) p (c # cs) = (if in_class rs c then [([c], cs)] else [])"
| "rmatch WordB p cs = (if isWordChar p \<noteq> isWordChar (lookahead cs) then [([], cs)] else [])"
| "rmatch (Cat a b) p cs =
     concat (map (\<lambda>(m1, r1). map (\<lambda>(m2, r2). (m1 @ m2, r2)) (rmatch b (after p m1) r1))
                 (rmatch a p cs))"
| "rmatch (Opt a) p cs = rmatch a p cs @ [([], cs)]"
| "rmatch (Star a) p cs =
     concat (map (\<lambda>(m1, r1).
                    if length r1 < length cs
                    then map (\<lambda>(m2, r2). (m1 @ m2, r2)) (rmatch (Star a) (after p m1) r1)
                    else [])
                 (rmatch a p cs)) @ [([], cs)]"
  by pat_completeness auto
termination
  by (relation "measures [\<lambda>(r, p, cs). size r, \<lambda>(r, p, cs). length cs]") auto

declare rmatch.simps(6) [simp del]

text \<open>
  \<^verbatim>\<open>doExecute\<close> searches from \<open>pos\<close> for the leftmost position where the pattern
  matches and returns the bounds of the first match there.
\<close>

definition context_before :: "gostring \<Rightarrow> nat \<Rightarrow> rune option" where
  "context_before s pos = (if pos = 0 then None else Some (s ! (pos - 1)))"

function doExecute :: "re \<Rightarrow> gostring \<Rightarrow> nat \<Rightarrow> (nat \<times> nat) option" where
  "doExecute r s pos =
     (if length s < pos then None
      else case rmatch r (context_before s pos) (drop pos s) of
             (m, rest) # alternatives \<Rightarrow> Some (pos, pos + length m)
           | [] \<Rightarrow> doExecute r s (pos + 1))"
  by pat_completeness auto
termination
  by (relation "measure (\<lambda>(r, s, pos). Suc (length s) - pos)") auto

declare doExecute.simps [simp del]

text \<open>
  \<^verbatim>\<open>allMatches\<close> is the loop behind \<^verbatim>\<open>FindAllString(line, -1)\<close>: it delivers the
  successive matches, continues after the end of a match, steps one rune over an empty
  match, and ignores an empty match right after the previous match. (Its bound on the
  number of matches, one more than the length of the text, is never reached.)
\<close>

function allMatches :: "re \<Rightarrow> gostring \<Rightarrow> nat \<Rightarrow> int \<Rightarrow> (nat \<times> nat) list" where
  "allMatches r s pos prevMatchEnd =
     (if length s < pos then []
      else case doExecute r s pos of
             None \<Rightarrow> []
           | Some (b, e) \<Rightarrow>
               if e = pos
               then (if int b = prevMatchEnd then [] else [(b, e)])
                    @ allMatches r s (if pos < length s then pos + 1 else length s + 1) (int e)
               else (b, e) # allMatches r s e (int e))"
  by pat_completeness auto
definition FindAllString :: "re \<Rightarrow> gostring \<Rightarrow> gostring list" where
  "FindAllString r s = map (\<lambda>(b, e). take (e - b) (drop b s)) (allMatches r s 0 (- 1))"

section \<open>The patterns of the program\<close>

text \<open>
  \<^verbatim>\<open>chineseCharacterRegex := `[\p{Han}]`\<close>\<^smallskip>
  \<^verbatim>\<open>chineseWordsRegex := `[\p{Han}]+`\<close>\<^smallskip>
  \<^verbatim>\<open>englishWordRegex := `\b[a-zA-Z0-9']+(?:-[a-zA-Z0-9']+)?\b`\<close>\<^smallskip>
  \<^verbatim>\<open>englishPhrasesRegex := `\b[a-zA-Z0-9][\w\s'-]*[a-zA-Z0-9]\b`\<close>
\<close>

definition alnum :: range_table where
  "alnum = [(0x61, 0x7A), (0x41, 0x5A), (0x30, 0x39)]"

definition apostrophe :: range_table where
  "apostrophe = [(0x27, 0x27)]"

definition hyphen :: range_table where
  "hyphen = [(0x2D, 0x2D)]"

definition chineseCharacterRegex :: "unicode_tables \<Rightarrow> re" where
  "chineseCharacterRegex U = Cls (Han U)"

definition chineseWordsRegex :: "unicode_tables \<Rightarrow> re" where
  "chineseWordsRegex U = Plus (Cls (Han U))"

definition englishWordRegex :: re where
  "englishWordRegex =
     Cat WordB (Cat (Plus (Cls (alnum @ apostrophe)))
       (Cat (Opt (Cat (Cls hyphen) (Plus (Cls (alnum @ apostrophe))))) WordB))"

definition englishPhrasesRegex :: re where
  "englishPhrasesRegex =
     Cat WordB (Cat (Cls alnum)
       (Cat (Star (Cls (perl_w @ perl_s @ apostrophe @ hyphen)))
         (Cat (Cls alnum) WordB)))"

section \<open>The scan: frequency maps and lists\<close>

text \<open>
  Go's \<^verbatim>\<open>int\<close> is a 64-bit two's complement integer on a 64-bit platform:
  \<^verbatim>\<open>++\<close> wraps around and \<^verbatim>\<open>>\<close> compares the signed values. A Go map is a
  partial function; reading an absent key gives the zero value, so \<^verbatim>\<open>m[k]++\<close> stores 1
  at a key that was absent.
\<close>

type_synonym go_int = "64 word"

type_synonym freq_map = "gostring \<rightharpoonup> go_int"

definition incr :: "freq_map \<Rightarrow> gostring \<Rightarrow> freq_map" where
  "incr m k = m(k \<mapsto> (case m k of None \<Rightarrow> 0 | Some v \<Rightarrow> v) + 1)"

text \<open>The eight variables that \<^verbatim>\<open>main\<close> declares before its scan loop.\<close>

record scan_state =
  chineseCharFreq :: freq_map
  chineseWordsFreq :: freq_map
  englishWordFreq :: freq_map
  englishPhrasesFreq :: freq_map
  chineseCharList :: "gostring list"
  chineseWordsList :: "gostring list"
  englishWordList :: "gostring list"
  englishPhrasesList :: "gostring list"

definition initial :: scan_state where
  "initial = \<lparr> chineseCharFreq = Map.empty, chineseWordsFreq = Map.empty,
               englishWordFreq = Map.empty, englishPhrasesFreq = Map.empty,
               chineseCharList = [], chineseWordsList = [],
               englishWordList = [], englishPhrasesList = [] \<rparr>"

text \<open>
  The body of the scan loop, for one line: four inner loops, each over the matches of one
  pattern, each incrementing one map at the key and appending the match to one list.
\<close>

definition scan_line :: "unicode_tables \<Rightarrow> scan_state \<Rightarrow> gostring \<Rightarrow> scan_state" where
  "scan_line U st line =
     (let chineseCharMatches = FindAllString (chineseCharacterRegex U) line;
          st = foldl (\<lambda>st char.
                 st\<lparr>chineseCharFreq := incr (chineseCharFreq st) char,
                    chineseCharList := chineseCharList st @ [char]\<rparr>) st chineseCharMatches;
          chineseWordMatches = FindAllString (chineseWordsRegex U) line;
          st = foldl (\<lambda>st word.
                 st\<lparr>chineseWordsFreq := incr (chineseWordsFreq st) word,
                    chineseWordsList := chineseWordsList st @ [word]\<rparr>) st chineseWordMatches;
          englishWordMatches = FindAllString englishWordRegex line;
          st = foldl (\<lambda>st word.
                 let normalizedWord = strings_ToLower U word in
                 st\<lparr>englishWordFreq := incr (englishWordFreq st) normalizedWord,
                    englishWordList := englishWordList st @ [word]\<rparr>) st englishWordMatches;
          englishPhraseMatches = FindAllString englishPhrasesRegex line;
          st = foldl (\<lambda>st phrase.
                 let normalizedPhrase = strings_ToLower U (strings_TrimSpace U phrase) in
                 st\<lparr>englishPhrasesFreq := incr (englishPhrasesFreq st) normalizedPhrase,
                    englishPhrasesList := englishPhrasesList st @ [phrase]\<rparr>) st englishPhraseMatches
      in st)"

definition scan :: "unicode_tables \<Rightarrow> gostring list \<Rightarrow> scan_state" where
  "scan U lines = foldl (scan_line U) initial lines"

section \<open>Ranking: sortByFrequency\<close>

datatype kv = KV (Key: gostring) (Value: go_int)

text \<open>
  \<^verbatim>\<open>sortByFrequency\<close> ranges over the map, sorts the pairs with \<^verbatim>\<open>sort.Slice\<close> and
  the comparison \<^verbatim>\<open>sortedPairs[i].Value > sortedPairs[j].Value\<close>, and returns the
  keys. The language leaves the iteration order of a map unspecified, also from one
  iteration to the next, and \<^verbatim>\<open>sort.Slice\<close> belongs to the standard library. Both are
  parameters of the model: the order in which the \<^verbatim>\<open>range\<close> loop visits the keys
  (it visits the keys of the map, each once), and the sorting function.
\<close>

definition by_Value :: "kv \<Rightarrow> kv \<Rightarrow> bool" where
  "by_Value a b \<longleftrightarrow> sint (Value a) > sint (Value b)"

definition sortByFrequency ::
  "((kv \<Rightarrow> kv \<Rightarrow> bool) \<Rightarrow> kv list \<Rightarrow> kv list) \<Rightarrow> gostring list \<Rightarrow> freq_map \<Rightarrow> gostring list" where
  "sortByFrequency sort_Slice range_order freqMap =
     (let sortedPairs = foldl (\<lambda>sortedPairs k.
                          case freqMap k of
                            Some v \<Rightarrow> sortedPairs @ [KV k v]
                          | None \<Rightarrow> sortedPairs) [] range_order;
          sortedPairs = sort_Slice by_Value sortedPairs;
          sortedKeys = foldl (\<lambda>sortedKeys pair. sortedKeys @ [Key pair]) [] sortedPairs
      in sortedKeys)"

definition enumerates :: "gostring list \<Rightarrow> freq_map \<Rightarrow> bool" where
  "enumerates range_order freqMap \<longleftrightarrow> distinct range_order \<and> set range_order = dom freqMap"

text \<open>
  What the documentation of \<^verbatim>\<open>sort.Slice\<close> promises for a comparison that is a strict
  weak ordering: the slice is rearranged (nothing is lost or added), and afterwards no
  element is less than an element before it. Stability is not promised.
\<close>

definition strict_weak :: "('a \<Rightarrow> 'a \<Rightarrow> bool) \<Rightarrow> bool" where
  "strict_weak lt \<longleftrightarrow>
     (\<forall>a b. lt a b \<longrightarrow> \<not> lt b a) \<and>
     (\<forall>a b c. \<not> lt a b \<and> \<not> lt b c \<longrightarrow> \<not> lt a c)"

definition sort_Slice_contract :: "(('a \<Rightarrow> 'a \<Rightarrow> bool) \<Rightarrow> 'a list \<Rightarrow> 'a list) \<Rightarrow> bool" where
  "sort_Slice_contract srt \<longleftrightarrow>
     (\<forall>lt xs. strict_weak lt \<longrightarrow>
        mset (srt lt xs) = mset xs \<and> sorted_wrt (\<lambda>a b. \<not> lt b a) (srt lt xs))"

text \<open>
  The insertion sort that the \<^verbatim>\<open>sort\<close> package runs on short slices (slices of two
  and of three elements among them):
  \<^verbatim>\<open>for i := a + 1; i < b; i++ { for j := i; j > a && less(j, j-1); j-- { swap(j, j-1) } }\<close>.
  The sorted part is kept with its last element first; \<open>sink\<close> is the inner loop.
\<close>

fun sink :: "('a \<Rightarrow> 'a \<Rightarrow> bool) \<Rightarrow> 'a \<Rightarrow> 'a list \<Rightarrow> 'a list" where
  "sink lt x [] = [x]"
| "sink lt x (y # front) = (if lt x y then y # sink lt x front else x # y # front)"

definition insertionSort :: "('a \<Rightarrow> 'a \<Rightarrow> bool) \<Rightarrow> 'a list \<Rightarrow> 'a list" where
  "insertionSort lt xs = rev (foldl (\<lambda>front x. sink lt x front) [] xs)"

section \<open>Output: writeToFile and main\<close>

text \<open>
  Everything outside the program that a run depends on: the file dialog, opening the
  input, the lines the scanner delivers and the error it ends with (if any), creating an
  output file, writing to it, and the two parameters of ranking. An error is given by its
  text. \<open>write_fault env path = Some n\<close> says that writing to \<open>path\<close> fails once \<open>n\<close>
  runes have reached the file.
\<close>

record environment =
  unicode :: unicode_tables
  dialog_Load :: "string + string"
  os_Open :: "string \<Rightarrow> string option"
  scanner_lines :: "gostring list"
  scanner_Err :: "string option"
  os_Create :: "string \<Rightarrow> string option"
  write_fault :: "string \<Rightarrow> nat option"
  sort_Slice :: "(kv \<Rightarrow> kv \<Rightarrow> bool) \<Rightarrow> kv list \<Rightarrow> kv list"
  range_chineseCharFreq :: "gostring list"
  range_englishWordFreq :: "gostring list"

text \<open>What a run leaves behind: the lines printed to standard output and the files.\<close>

record effects =
  stdout :: "string list"
  files :: "string \<rightharpoonup> gostring"

definition newline :: string where
  "newline = [CHR 0x0A]"

definition Printf :: "effects \<Rightarrow> string \<Rightarrow> effects" where
  "Printf w msg = w\<lparr>stdout := stdout w @ [msg]\<rparr>"

definition Println :: "effects \<Rightarrow> string \<Rightarrow> effects" where
  "Println w msg = Printf w (msg @ newline)"

text \<open>
  \<^verbatim>\<open>writeToFile\<close> returns after the message when \<^verbatim>\<open>os.Create\<close> fails. Otherwise the
  file exists and is empty; the loop hands every item and a line feed to the buffered
  writer, whose results it discards, and \<^verbatim>\<open>Flush\<close>, whose result it discards too,
  leaves in the file what could be written.
\<close>

definition Flush :: "environment \<Rightarrow> string \<Rightarrow> gostring \<Rightarrow> gostring" where
  "Flush env filePath buffered =
     (case write_fault env filePath of None \<Rightarrow> buffered | Some n \<Rightarrow> take n buffered)"

definition writeToFile :: "environment \<Rightarrow> string \<Rightarrow> gostring list \<Rightarrow> effects \<Rightarrow> effects" where
  "writeToFile env filePath data w =
     (case os_Create env filePath of
        Some err \<Rightarrow> Printf w (''Error creating file '' @ filePath @ '': '' @ err @ newline)
      | None \<Rightarrow>
          (let w = w\<lparr>files := (files w)(filePath \<mapsto> [])\<rparr>;
               writer = foldl (\<lambda>writer item. writer @ item @ [0x0A]) [] data
           in w\<lparr>files := (files w)(filePath \<mapsto> Flush env filePath writer)\<rparr>))"

definition chineseFileDedup :: string where
  "chineseFileDedup = ''deduplicated_chinese.txt''"

definition chineseFileDup :: string where
  "chineseFileDup = ''duplicated_chinese.txt''"

definition englishFileDedup :: string where
  "englishFileDedup = ''deduplicated_english.txt''"

definition englishFileDup :: string where
  "englishFileDup = ''duplicated_english.txt''"

text \<open>The end of \<^verbatim>\<open>main\<close>, after the scan has succeeded: ranking and the four writes.\<close>

definition main_output :: "environment \<Rightarrow> scan_state \<Rightarrow> effects \<Rightarrow> effects" where
  "main_output env st w =
     (let chineseCharDedupSorted =
            sortByFrequency (sort_Slice env) (range_chineseCharFreq env) (chineseCharFreq st);
          englishWordDedupSorted =
            sortByFrequency (sort_Slice env) (range_englishWordFreq env) (englishWordFreq st);
          w = writeToFile env chineseFileDedup chineseCharDedupSorted w;
          w = writeToFile env chineseFileDup (chineseCharList st) w;
          w = writeToFile env englishFileDedup englishWordDedupSorted w;
          w = writeToFile env englishFileDup (englishWordList st) w
      in Println w ''All output files written successfully.'')"

definition main :: "environment \<Rightarrow> effects \<Rightarrow> effects" where
  "main env w =
     (let w = Println w ''Select the input file:'' in
      case dialog_Load env of
        Inl err \<Rightarrow> Printf w (''Error selecting input file: '' @ err @ newline)
      | Inr inputFile \<Rightarrow>
          if inputFile = [] then Println w ''No input file selected.''
          else
            let w = Printf w (''Selected input file: '' @ inputFile @ newline) in
            case os_Open env inputFile of
              Some err \<Rightarrow> Printf w (''Error opening input file: '' @ err @ newline)
            | None \<Rightarrow>
                let st = scan (unicode env) (scanner_lines env) in
                case scanner_Err env of
                  Some err \<Rightarrow> Printf w (''Error reading input file: '' @ err @ newline)
                | None \<Rightarrow> main_output env st w)"

section \<open>Vocabulary of the statements\<close>

text \<open>
  The matches of a pattern over all lines, and the map that counts a list of keys from the
  empty map.
\<close>

definition tokens :: "re \<Rightarrow> gostring list \<Rightarrow> gostring list" where
  "tokens r lines = concat (map (FindAllString r) lines)"

definition tally :: "gostring list \<Rightarrow> freq_map" where
  "tally keys = foldl incr Map.empty keys"

text \<open>
  The four categories, with the pattern, the frequency map and the list of each, and the
  normalization of the specification: the identity for the Chinese categories, lower-casing
  for English words, trimming and then lower-casing for English phrases.
\<close>

datatype category = ChineseCharacter | ChineseWord | EnglishWord | EnglishPhrase

fun normalize_spec :: "unicode_tables \<Rightarrow> category \<Rightarrow> gostring \<Rightarrow> gostring" where
  "normalize_spec U ChineseCharacter raw = raw"
| "normalize_spec U ChineseWord raw = raw"
| "normalize_spec U EnglishWord raw = strings_ToLower U raw"
| "normalize_spec U EnglishPhrase raw = strings_ToLower U (strings_TrimSpace U raw)"

fun pattern :: "unicode_tables \<Rightarrow> category \<Rightarrow> re" where
  "pattern U ChineseCharacter = chineseCharacterRegex U"
| "pattern U ChineseWord = chineseWordsRegex U"
| "pattern U EnglishWord = englishWordRegex"
| "pattern U EnglishPhrase = englishPhrasesRegex"

fun frequency_map :: "category \<Rightarrow> scan_state \<Rightarrow> freq_map" where
  "frequency_map ChineseCharacter st = chineseCharFreq st"
| "frequency_map ChineseWord st = chineseWordsFreq st"
| "frequency_map EnglishWord st = englishWordFreq st"
| "frequency_map EnglishPhrase st = englishPhrasesFreq st"

fun duplicated_list :: "category \<Rightarrow> scan_state \<Rightarrow> gostring list" where
  "duplicated_list ChineseCharacter st = chineseCharList st"
| "duplicated_list ChineseWord st = chineseWordsList st"
| "duplicated_list EnglishWord st = englishWordList st"
| "duplicated_list EnglishPhrase st = englishPhrasesList st"

text \<open>
  The complete content of an output file: every item followed by a line feed. The four
  calls of \<^verbatim>\<open>writeToFile\<close> in \<^verbatim>\<open>main\<close>, as pairs of file and data, and the message
  for a file that cannot be created.
\<close>

definition records :: "gostring list \<Rightarrow> gostring" where
  "records data = concat (map (\<lambda>item. item @ [0x0A]) data)"

definition destinations :: "environment \<Rightarrow> scan_state \<Rightarrow> (string \<times> gostring list) list" where
  "destinations env st =
     [(chineseFileDedup, sortByFrequency (sort_Slice env) (range_chineseCharFreq env) (chineseCharFreq st)),
      (chineseFileDup, chineseCharList st),
      (englishFileDedup, sortByFrequency (sort_Slice env) (range_englishWordFreq env) (englishWordFreq st)),
      (englishFileDup, englishWordList st)]"

definition create_message :: "string \<Rightarrow> string \<Rightarrow> string" where
  "create_message filePath err = ''Error creating file '' @ filePath @ '': '' @ err @ newline"

section \<open>Example inputs\<close>

definition three_keys :: freq_map where
  "three_keys = [runes ''cat'' \<mapsto> 2, runes ''dog'' \<mapsto> 1, runes ''emu'' \<mapsto> 2]"



definition scenario_line :: gostring where
  "scenario_line = runes ''Hello world, I'll visit micro-video apps. '' @ [0x4F60, 0x597D, 0x4E16, 0x754C]"

definition basic_tables :: unicode_tables where
  "basic_tables = \<lparr> Han = [(0x4E00, 0x9FA5)],
                     White_Space = [(0x09, 0x0D), (0x20, 0x20), (0x85, 0x85), (0xA0, 0xA0),
                                    (0x1680, 0x1680), (0x2000, 0x200A), (0x2028, 0x2029),
                                    (0x202F, 0x202F), (0x205F, 0x205F), (0x3000, 0x3000)],
                     LowerCase = (\<lambda>r. r) \<rparr>"

definition cat_line :: gostring where
  "cat_line = runes ''cat cat dog''"

definition nothing_yet :: effects where
  "nothing_yet = \<lparr> stdout = [], files = Map.empty \<rparr>"

definition healthy_run :: environment where
  "healthy_run =
     \<lparr> unicode = basic_tables, dialog_Load = Inr ''input.txt'', os_Open = (\<lambda>path. None),
       scanner_lines = [cat_line], scanner_Err = None,
       os_Create = (\<lambda>path. None), write_fault = (\<lambda>path. None),
       sort_Slice = insertionSort,
       range_chineseCharFreq = [], range_englishWordFreq = [runes ''dog'', runes ''cat''] \<rparr>"


definition disk_full_run :: environment where
  "disk_full_run =
     healthy_run\<lparr>write_fault := (\<lambda>path. if path = englishFileDedup then Some 0 else None)\<rparr>"

definition read_error_run :: environment where
  "read_error_run = healthy_run\<lparr>scanner_Err := Some ''bufio.Scanner: token too long''\<rparr>"

section \<open>The match loop terminates\<close>

text \<open>
  A match is a prefix of the text it was found in, so a match that is not empty ends
  behind the position the search started from: every round of \<^verbatim>\<open>allMatches\<close> moves
  on.
\<close>

lemma rmatch_split: "(m, rest) \<in> set (rmatch r p cs) \<Longrightarrow> cs = m @ rest"
proof (induction r p cs arbitrary: m rest rule: rmatch.induct)
  case (1 rs p)
  then show ?case by simp
next
  case (2 rs p c cs)
  then show ?case by (simp split: if_splits)
next
  case (3 p cs)
  then show ?case by (simp split: if_splits)
next
  case (4 a b p cs)
  from "4.prems" obtain m1 r1 m2 where
    a: "(m1, r1) \<in> set (rmatch a p cs)" and
    b: "(m2, rest) \<in> set (rmatch b (after p m1) r1)" and
    m: "m = m1 @ m2"
    by auto
  from "4.IH"(1) [OF a] have "cs = m1 @ r1" .
  moreover from "4.IH"(2) [OF a refl b] have "r1 = m2 @ rest" .
  ultimately show ?case using m by simp
next
  case (5 a p cs)
  then show ?case by auto
next
  case (6 a p cs)
  from "6.prems" have "(m, rest) \<in> set (concat (map (\<lambda>(m1, r1).
                    if length r1 < length cs
                    then map (\<lambda>(m2, r2). (m1 @ m2, r2)) (rmatch (Star a) (after p m1) r1)
                    else [])
                 (rmatch a p cs)) @ [([], cs)])"
    by (subst (asm) rmatch.simps(6))
  then consider "m = [] \<and> rest = cs"
    | m1 r1 m2 where "(m1, r1) \<in> set (rmatch a p cs)" "length r1 < length cs"
        "(m2, rest) \<in> set (rmatch (Star a) (after p m1) r1)" "m = m1 @ m2"
    by (auto split: if_splits)
  then show ?case
  proof cases
    case 1
    then show ?thesis by simp
  next
    case (2 m1 r1 m2)
    from "6.IH"(1) [OF 2(1)] have "cs = m1 @ r1" .
    moreover from "6.IH"(2) [OF 2(1) refl 2(2) 2(3)] have "r1 = m2 @ rest" .
    ultimately show ?thesis using 2(4) by simp
  qed
qed

lemma doExecute_bounds:
  "doExecute r s pos = Some (b, e) \<Longrightarrow> pos \<le> b \<and> b \<le> e \<and> e \<le> length s"
proof (induction r s pos rule: doExecute.induct)
  case (1 r s pos)
  note eq = doExecute.simps [of r s pos]
  show ?case
  proof (cases "length s < pos")
    case True
    with "1.prems" eq show ?thesis by simp
  next
    case False
    show ?thesis
    proof (cases "rmatch r (context_before s pos) (drop pos s)")
      case Nil
      with False "1.prems" "1.IH" eq show ?thesis by simp
    next
      case (Cons x xs)
      obtain m rest where x: "x = (m, rest)" by (cases x)
      have "(m, rest) \<in> set (rmatch r (context_before s pos) (drop pos s))"
        using Cons x by simp
      then have "drop pos s = m @ rest" by (rule rmatch_split)
      then have "length m \<le> length s - pos"
        by (metis length_append length_drop le_add1)
      with False Cons x "1.prems" eq show ?thesis by auto
    qed
  qed
qed

termination allMatches
proof (relation "measure (\<lambda>(r, s, pos, prevMatchEnd). Suc (length s) - pos)")
  show "wf (measure (\<lambda>(r, s, pos, prevMatchEnd). Suc (length s) - pos))" by simp
next
  fix r :: re and s :: gostring and pos :: nat and prevMatchEnd :: int and x2 x y
  assume "\<not> length s < pos" "doExecute r s pos = Some x2" "(x, y) = x2" "y = pos"
  then show "((r, s, if pos < length s then pos + 1 else length s + 1, int y), r, s, pos, prevMatchEnd)
       \<in> measure (\<lambda>(r, s, pos, prevMatchEnd). Suc (length s) - pos)"
    by auto
next
  fix r :: re and s :: gostring and pos :: nat and prevMatchEnd :: int and x2 x y
  assume "\<not> length s < pos" "doExecute r s pos = Some x2" "(x, y) = x2" "y \<noteq> pos"
  then show "((r, s, y, int y), r, s, pos, prevMatchEnd)
       \<in> measure (\<lambda>(r, s, pos, prevMatchEnd). Suc (length s) - pos)"
    using doExecute_bounds [of r s pos x y] by auto
qed

declare allMatches.simps [simp del]

section \<open>Ranking: what sortByFrequency returns\<close>

lemma strict_weak_by_Value: "strict_weak by_Value"
  by (auto simp: strict_weak_def by_Value_def)

lemma range_pairs:
  "foldl (\<lambda>sortedPairs k. case freqMap k of Some v \<Rightarrow> sortedPairs @ [KV k v] | None \<Rightarrow> sortedPairs) acc ks
     = acc @ map (\<lambda>k. KV k (the (freqMap k))) (filter (\<lambda>k. k \<in> dom freqMap) ks)"
  by (induction ks arbitrary: acc) (auto split: option.splits)

lemma collect_keys: "foldl (\<lambda>sortedKeys pair. sortedKeys @ [Key pair]) acc ps = acc @ map Key ps"
  by (induction ps arbitrary: acc) auto

lemma sortByFrequency_eq:
  "set range_order \<subseteq> dom freqMap \<Longrightarrow>
   sortByFrequency srt range_order freqMap =
     map Key (srt by_Value (map (\<lambda>k. KV k (the (freqMap k))) range_order))"
proof -
  assume "set range_order \<subseteq> dom freqMap"
  then have "filter (\<lambda>k. k \<in> dom freqMap) range_order = range_order"
    by (auto simp: filter_id_conv)
  then show ?thesis
    by (simp add: sortByFrequency_def range_pairs collect_keys)
qed

lemma sink_mset: "mset (sink lt x ys) = add_mset x (mset ys)"
  by (induction ys) auto

lemma sink_set: "set (sink lt x ys) = insert x (set ys)"
  by (induction ys) auto

lemma sink_sorted:
  assumes "strict_weak lt" and "sorted_wrt (\<lambda>a b. \<not> lt a b) ys"
  shows "sorted_wrt (\<lambda>a b. \<not> lt a b) (sink lt x ys)"
  using assms(2)
proof (induction ys)
  case Nil
  then show ?case by simp
next
  case (Cons y ys)
  from assms(1) have asym: "\<And>a b. lt a b \<Longrightarrow> \<not> lt b a"
    and ntrans: "\<And>a b c. \<not> lt a b \<Longrightarrow> \<not> lt b c \<Longrightarrow> \<not> lt a c"
    unfolding strict_weak_def by blast+
  show ?case
  proof (cases "lt x y")
    case True
    with Cons asym show ?thesis by (auto simp: sink_set)
  next
    case False
    with Cons ntrans show ?thesis by auto
  qed
qed

lemma insertion_fold_mset:
  "mset (foldl (\<lambda>front x. sink lt x front) acc xs) = mset acc + mset xs"
  by (induction xs arbitrary: acc) (auto simp: sink_mset)

lemma insertion_fold_sorted:
  "strict_weak lt \<Longrightarrow> sorted_wrt (\<lambda>a b. \<not> lt a b) acc \<Longrightarrow>
   sorted_wrt (\<lambda>a b. \<not> lt a b) (foldl (\<lambda>front x. sink lt x front) acc xs)"
  by (induction xs arbitrary: acc) (auto simp: sink_sorted)

lemma insertionSort_contract: "sort_Slice_contract insertionSort"
  unfolding sort_Slice_contract_def insertionSort_def
proof (intro allI impI conjI)
  fix lt :: "'a \<Rightarrow> 'a \<Rightarrow> bool" and xs :: "'a list"
  show "mset (rev (foldl (\<lambda>front x. sink lt x front) [] xs)) = mset xs"
    by (simp add: insertion_fold_mset)
  assume "strict_weak lt"
  then have "sorted_wrt (\<lambda>a b. \<not> lt a b) (foldl (\<lambda>front x. sink lt x front) [] xs)"
    by (rule insertion_fold_sorted) simp
  then show "sorted_wrt (\<lambda>a b. \<not> lt b a) (rev (foldl (\<lambda>front x. sink lt x front) [] xs))"
    by (simp add: sorted_wrt_rev)
qed


lemma sorted_pairs_facts:
  assumes c: "sort_Slice_contract srt" and e: "set range_order \<subseteq> dom freqMap"
  defines "pairs \<equiv> map (\<lambda>k. KV k (the (freqMap k))) range_order"
  shows "mset (map Key (srt by_Value pairs)) = mset range_order"
    and "\<forall>p \<in> set (srt by_Value pairs). Value p = the (freqMap (Key p))"
    and "sorted_wrt (\<lambda>a b. sint (the (freqMap b)) \<le> sint (the (freqMap a))) (map Key (srt by_Value pairs))"
proof -
  from c strict_weak_by_Value have m: "mset (srt by_Value pairs) = mset pairs"
    and s: "sorted_wrt (\<lambda>a b. \<not> by_Value b a) (srt by_Value pairs)"
    unfolding sort_Slice_contract_def by blast+
  from m have "mset (map Key (srt by_Value pairs)) = mset (map Key pairs)"
    by (metis mset_map)
  also have "map Key pairs = range_order"
    by (simp add: pairs_def comp_def)
  finally show "mset (map Key (srt by_Value pairs)) = mset range_order" .
  from m have "set (srt by_Value pairs) = set pairs"
    by (metis set_mset_mset)
  then show v: "\<forall>p \<in> set (srt by_Value pairs). Value p = the (freqMap (Key p))"
    by (auto simp: pairs_def)
  have "sorted_wrt (\<lambda>a b. sint (the (freqMap (Key b))) \<le> sint (the (freqMap (Key a)))) (srt by_Value pairs)"
    by (rule sorted_wrt_mono_rel [OF _ s]) (use v in \<open>auto simp: by_Value_def\<close>)
  then show "sorted_wrt (\<lambda>a b. sint (the (freqMap b)) \<le> sint (the (freqMap a))) (map Key (srt by_Value pairs))"
    by (simp add: sorted_wrt_map)
qed

text \<open>
  Claim C1. For every frequency table, whatever order the \<^verbatim>\<open>range\<close> loop visits its
  keys in and whatever sorting function meets the contract of \<^verbatim>\<open>sort.Slice\<close>,
  \<^verbatim>\<open>sortByFrequency\<close> returns exactly the keys of the table, each once, with the count
  never increasing from one position to the next; for the empty table it returns the empty
  list.
\<close>

theorem sortByFrequency_ranks:
  assumes "sort_Slice_contract srt" and "enumerates range_order freqMap"
  shows "set (sortByFrequency srt range_order freqMap) = dom freqMap \<and>
         distinct (sortByFrequency srt range_order freqMap) \<and>
         (\<forall>i. Suc i < length (sortByFrequency srt range_order freqMap) \<longrightarrow>
            sint (the (freqMap (sortByFrequency srt range_order freqMap ! Suc i)))
              \<le> sint (the (freqMap (sortByFrequency srt range_order freqMap ! i)))) \<and>
         (freqMap = Map.empty \<longrightarrow> sortByFrequency srt range_order freqMap = [])"
proof -
  from assms(2) have d: "distinct range_order" and e: "set range_order = dom freqMap"
    by (simp_all add: enumerates_def)
  let ?pairs = "map (\<lambda>k. KV k (the (freqMap k))) range_order"
  let ?res = "sortByFrequency srt range_order freqMap"
  from e have res: "?res = map Key (srt by_Value ?pairs)"
    by (simp add: sortByFrequency_eq)
  from e have sub: "set range_order \<subseteq> dom freqMap" by simp
  have m: "mset ?res = mset range_order"
    unfolding res by (rule sorted_pairs_facts(1) [OF assms(1) sub])
  have s: "sorted_wrt (\<lambda>a b. sint (the (freqMap b)) \<le> sint (the (freqMap a))) ?res"
    unfolding res by (rule sorted_pairs_facts(3) [OF assms(1) sub])
  from m have "set ?res = set range_order" by (metis set_mset_mset)
  with e have 1: "set ?res = dom freqMap" by simp
  from m d have 2: "distinct ?res" by (metis mset_eq_imp_distinct_iff)
  have 3: "\<forall>i. Suc i < length ?res \<longrightarrow>
            sint (the (freqMap (?res ! Suc i))) \<le> sint (the (freqMap (?res ! i)))"
    using s by (auto simp: sorted_wrt_iff_nth_less)
  have 4: "freqMap = Map.empty \<longrightarrow> ?res = []"
    using 1 by auto
  from 1 2 3 4 show ?thesis by blast
qed

text \<open>
  The theorem at a table of three keys with a tie, ranged over in the order dog, emu, cat
  and sorted by the insertion sort.
\<close>

theorem sortByFrequency_ranks_witness:
  "sort_Slice_contract (insertionSort :: (kv \<Rightarrow> kv \<Rightarrow> bool) \<Rightarrow> kv list \<Rightarrow> kv list) \<and>
   enumerates [runes ''dog'', runes ''emu'', runes ''cat''] three_keys \<and>
   sortByFrequency insertionSort [runes ''dog'', runes ''emu'', runes ''cat''] three_keys
     = [runes ''emu'', runes ''cat'', runes ''dog''] \<and>
   set [runes ''emu'', runes ''cat'', runes ''dog''] = dom three_keys \<and>
   distinct [runes ''emu'', runes ''cat'', runes ''dog'']"
proof -
  have c: "sort_Slice_contract (insertionSort :: (kv \<Rightarrow> kv \<Rightarrow> bool) \<Rightarrow> kv list \<Rightarrow> kv list)"
    by (rule insertionSort_contract)
  have e: "enumerates [runes ''dog'', runes ''emu'', runes ''cat''] three_keys"
    by (auto simp: enumerates_def three_keys_def runes_def)
  have r: "sortByFrequency insertionSort [runes ''dog'', runes ''emu'', runes ''cat''] three_keys
     = [runes ''emu'', runes ''cat'', runes ''dog'']"
    by (simp add: sortByFrequency_def insertionSort_def three_keys_def runes_def by_Value_def)
  from sortByFrequency_ranks [OF c e] c e r show ?thesis by simp
qed






section \<open>The scan in closed form\<close>

lemma chineseChar_loop:
  "foldl (\<lambda>st char.
      st\<lparr>chineseCharFreq := incr (chineseCharFreq st) char,
         chineseCharList := chineseCharList st @ [char]\<rparr>) st xs
   = st\<lparr>chineseCharFreq := foldl incr (chineseCharFreq st) xs,
        chineseCharList := chineseCharList st @ xs\<rparr>"
  by (induction xs arbitrary: st) simp_all

lemma chineseWords_loop:
  "foldl (\<lambda>st word.
      st\<lparr>chineseWordsFreq := incr (chineseWordsFreq st) word,
         chineseWordsList := chineseWordsList st @ [word]\<rparr>) st xs
   = st\<lparr>chineseWordsFreq := foldl incr (chineseWordsFreq st) xs,
        chineseWordsList := chineseWordsList st @ xs\<rparr>"
  by (induction xs arbitrary: st) simp_all

lemma englishWord_loop:
  "foldl (\<lambda>st word.
      let normalizedWord = f word in
      st\<lparr>englishWordFreq := incr (englishWordFreq st) normalizedWord,
         englishWordList := englishWordList st @ [word]\<rparr>) st xs
   = st\<lparr>englishWordFreq := foldl incr (englishWordFreq st) (map f xs),
        englishWordList := englishWordList st @ xs\<rparr>"
  by (induction xs arbitrary: st) simp_all

lemma englishPhrases_loop:
  "foldl (\<lambda>st phrase.
      let normalizedPhrase = f phrase in
      st\<lparr>englishPhrasesFreq := incr (englishPhrasesFreq st) normalizedPhrase,
         englishPhrasesList := englishPhrasesList st @ [phrase]\<rparr>) st xs
   = st\<lparr>englishPhrasesFreq := foldl incr (englishPhrasesFreq st) (map f xs),
        englishPhrasesList := englishPhrasesList st @ xs\<rparr>"
  by (induction xs arbitrary: st) simp_all

lemma scan_line_eq:
  "scan_line U st line =
     \<lparr> chineseCharFreq = foldl incr (chineseCharFreq st) (FindAllString (chineseCharacterRegex U) line),
       chineseWordsFreq = foldl incr (chineseWordsFreq st) (FindAllString (chineseWordsRegex U) line),
       englishWordFreq = foldl incr (englishWordFreq st)
          (map (strings_ToLower U) (FindAllString englishWordRegex line)),
       englishPhrasesFreq = foldl incr (englishPhrasesFreq st)
          (map (\<lambda>phrase. strings_ToLower U (strings_TrimSpace U phrase))
               (FindAllString englishPhrasesRegex line)),
       chineseCharList = chineseCharList st @ FindAllString (chineseCharacterRegex U) line,
       chineseWordsList = chineseWordsList st @ FindAllString (chineseWordsRegex U) line,
       englishWordList = englishWordList st @ FindAllString englishWordRegex line,
       englishPhrasesList = englishPhrasesList st @ FindAllString englishPhrasesRegex line \<rparr>"
  unfolding scan_line_def Let_def
  by (simp only: chineseChar_loop chineseWords_loop englishWord_loop [unfolded Let_def]
        englishPhrases_loop [unfolded Let_def]) simp

lemma scan_from:
  "foldl (scan_line U) st lines =
     \<lparr> chineseCharFreq = foldl incr (chineseCharFreq st) (tokens (chineseCharacterRegex U) lines),
       chineseWordsFreq = foldl incr (chineseWordsFreq st) (tokens (chineseWordsRegex U) lines),
       englishWordFreq = foldl incr (englishWordFreq st)
          (map (strings_ToLower U) (tokens englishWordRegex lines)),
       englishPhrasesFreq = foldl incr (englishPhrasesFreq st)
          (map (\<lambda>phrase. strings_ToLower U (strings_TrimSpace U phrase))
               (tokens englishPhrasesRegex lines)),
       chineseCharList = chineseCharList st @ tokens (chineseCharacterRegex U) lines,
       chineseWordsList = chineseWordsList st @ tokens (chineseWordsRegex U) lines,
       englishWordList = englishWordList st @ tokens englishWordRegex lines,
       englishPhrasesList = englishPhrasesList st @ tokens englishPhrasesRegex lines \<rparr>"
proof (induction lines arbitrary: st)
  case Nil
  show ?case by (simp add: tokens_def)
next
  case (Cons line lines)
  show ?case
    unfolding foldl_Cons Cons.IH
    by (simp add: scan_line_eq tokens_def)
qed

lemma scan_eq:
  "scan U lines =
     \<lparr> chineseCharFreq = tally (tokens (chineseCharacterRegex U) lines),
       chineseWordsFreq = tally (tokens (chineseWordsRegex U) lines),
       englishWordFreq = tally (map (strings_ToLower U) (tokens englishWordRegex lines)),
       englishPhrasesFreq = tally (map (\<lambda>phrase. strings_ToLower U (strings_TrimSpace U phrase))
               (tokens englishPhrasesRegex lines)),
       chineseCharList = tokens (chineseCharacterRegex U) lines,
       chineseWordsList = tokens (chineseWordsRegex U) lines,
       englishWordList = tokens englishWordRegex lines,
       englishPhrasesList = tokens englishPhrasesRegex lines \<rparr>"
  by (simp add: scan_def scan_from tally_def initial_def)

lemma incr_fold:
  "foldl incr m ks k =
     (if k \<in> set ks \<or> k \<in> dom m
      then Some ((case m k of None \<Rightarrow> 0 | Some v \<Rightarrow> v) + of_nat (count_list ks k))
      else None)"
proof (induction ks arbitrary: m)
  case Nil
  show ?case by (auto split: option.splits)
next
  case (Cons a ks)
  show ?case
    unfolding foldl_Cons Cons.IH
    by (auto simp: incr_def split: option.splits)
qed

lemma tally_eq:
  "tally ks k = (if k \<in> set ks then Some (of_nat (count_list ks k)) else None)"
  by (simp add: tally_def incr_fold)

lemma dom_tally: "dom (tally ks) = set ks"
  by (auto simp: dom_def tally_eq)

lemma sint_of_nat_small:
  assumes "n < 2 ^ 63"
  shows "sint (of_nat n :: 64 word) = int n"
proof -
  have "sint (of_nat n :: 64 word) = signed_take_bit 63 (int n)"
    by (simp add: signed_of_nat)
  also have "\<dots> = int n"
    using assms by (intro signed_take_bit_int_eq_self) simp_all
  finally show ?thesis .
qed

lemma normalize_spec_maps:
  "map (normalize_spec U ChineseCharacter) xs = xs"
  "map (normalize_spec U ChineseWord) xs = xs"
  "map (normalize_spec U EnglishWord) xs = map (strings_ToLower U) xs"
  "map (normalize_spec U EnglishPhrase) xs
     = map (\<lambda>phrase. strings_ToLower U (strings_TrimSpace U phrase)) xs"
  by (induction xs) simp_all


lemma scan_category:
  "frequency_map c (scan U lines) = tally (map (normalize_spec U c) (tokens (pattern U c) lines)) \<and>
   duplicated_list c (scan U lines) = tokens (pattern U c) lines"
  by (cases c) (simp_all add: scan_eq normalize_spec_maps)

section \<open>The patterns on concrete lines\<close>

text \<open>
  Repetition of a class, unfolded along the text: the form in which a concrete line is
  evaluated.
\<close>

lemma rmatch_Star_Cls_Nil: "rmatch (Star (Cls rs)) p [] = [([], [])]"
  by (subst rmatch.simps(6)) simp

lemma rmatch_Star_Cls_Cons:
  "rmatch (Star (Cls rs)) p (c # cs) =
     (if in_class rs c
      then map (\<lambda>(m2, r2). (c # m2, r2)) (rmatch (Star (Cls rs)) (Some c) cs) @ [([], c # cs)]
      else [([], c # cs)])"
  by (subst rmatch.simps(6)) simp

lemmas find_all_simps =
  FindAllString_def context_before_def doExecute.simps allMatches.simps
  rmatch_Star_Cls_Nil rmatch_Star_Cls_Cons runes_def

lemma scenario_englishWord:
  "FindAllString englishWordRegex scenario_line
     = map runes [''Hello'', ''world'', ''I'll'', ''visit'', ''micro-video'', ''apps'']"
  by (simp add: find_all_simps englishWordRegex_def scenario_line_def alnum_def apostrophe_def
        hyphen_def in_class_def perl_w_def)

lemma scenario_chineseCharacter:
  assumes "\<forall>c<128. \<not> in_class (Han U) c"
    and "in_class (Han U) 0x4F60" "in_class (Han U) 0x597D"
    and "in_class (Han U) 0x4E16" "in_class (Han U) 0x754C"
  shows "FindAllString (chineseCharacterRegex U) scenario_line
           = [[0x4F60], [0x597D], [0x4E16], [0x754C]]"
  using assms by (simp add: find_all_simps chineseCharacterRegex_def scenario_line_def)

lemma scenario_chineseWords:
  assumes "\<forall>c<128. \<not> in_class (Han U) c"
    and "in_class (Han U) 0x4F60" "in_class (Han U) 0x597D"
    and "in_class (Han U) 0x4E16" "in_class (Han U) 0x754C"
  shows "FindAllString (chineseWordsRegex U) scenario_line = [[0x4F60, 0x597D, 0x4E16, 0x754C]]"
  using assms by (simp add: find_all_simps chineseWordsRegex_def scenario_line_def)

lemma scenario_lower:
  "map (strings_ToLower U) (map runes [''Hello'', ''world'', ''I'll'', ''visit'', ''micro-video'', ''apps''])
     = map runes [''hello'', ''world'', ''i'll'', ''visit'', ''micro-video'', ''apps'']"
  by (simp add: strings_ToLower_def unicode_ToLower_def runes_def)

lemma scenario_tally:
  "tally (map runes [''hello'', ''world'', ''i'll'', ''visit'', ''micro-video'', ''apps''])
     = [runes ''hello'' \<mapsto> 1, runes ''world'' \<mapsto> 1, runes ''i'll'' \<mapsto> 1,
        runes ''visit'' \<mapsto> 1, runes ''micro-video'' \<mapsto> 1, runes ''apps'' \<mapsto> 1]"
  by (simp add: tally_def incr_def runes_def)

lemma cat_line_englishWord:
  "FindAllString englishWordRegex cat_line = map runes [''cat'', ''cat'', ''dog'']"
  by (simp add: find_all_simps englishWordRegex_def cat_line_def alnum_def apostrophe_def
        hyphen_def in_class_def perl_w_def)

lemma cat_line_englishPhrases:
  "FindAllString englishPhrasesRegex cat_line = [runes ''cat cat dog'']"
  by (simp add: find_all_simps englishPhrasesRegex_def cat_line_def alnum_def apostrophe_def
        hyphen_def in_class_def perl_w_def perl_s_def)

lemma cat_line_scan:
  "englishWordList (scan basic_tables [cat_line]) = map runes [''cat'', ''cat'', ''dog'']"
  "englishWordFreq (scan basic_tables [cat_line]) = [runes ''cat'' \<mapsto> 2, runes ''dog'' \<mapsto> 1]"
  by (simp_all add: scan_eq tokens_def cat_line_englishWord strings_ToLower_def unicode_ToLower_def
        tally_def incr_def runes_def)


text \<open>
  Claim C3. The line \<^verbatim>\<open>Hello world, I'll visit micro-video apps.\<close> followed by a
  space and the four Han characters U+4F60, U+597D, U+4E16, U+754C. For every Han table that
  holds these four characters and no ASCII character, scanning the line leaves the four
  characters one by one in the list of Chinese characters, their run as the one Chinese
  word, and the six raw English words \<^verbatim>\<open>Hello\<close>, \<^verbatim>\<open>world\<close>, \<^verbatim>\<open>I'll\<close>,
  \<^verbatim>\<open>visit\<close>, \<^verbatim>\<open>micro-video\<close>, \<^verbatim>\<open>apps\<close> in the list of English words;
  the keys counted for them are their lower-case forms, each with the count 1.
\<close>

theorem scenario_tokens:
  assumes "list_all (\<lambda>c. \<not> in_class (Han U) c) [0..<128]"
    and "in_class (Han U) 0x4F60" "in_class (Han U) 0x597D"
    and "in_class (Han U) 0x4E16" "in_class (Han U) 0x754C"
  shows "chineseCharList (scan U [scenario_line]) = [[0x4F60], [0x597D], [0x4E16], [0x754C]] \<and>
         chineseWordsList (scan U [scenario_line]) = [[0x4F60, 0x597D, 0x4E16, 0x754C]] \<and>
         englishWordList (scan U [scenario_line])
           = map runes [''Hello'', ''world'', ''I'll'', ''visit'', ''micro-video'', ''apps''] \<and>
         map (strings_ToLower U) (englishWordList (scan U [scenario_line]))
           = map runes [''hello'', ''world'', ''i'll'', ''visit'', ''micro-video'', ''apps''] \<and>
         englishWordFreq (scan U [scenario_line])
           = [runes ''hello'' \<mapsto> 1, runes ''world'' \<mapsto> 1, runes ''i'll'' \<mapsto> 1,
              runes ''visit'' \<mapsto> 1, runes ''micro-video'' \<mapsto> 1, runes ''apps'' \<mapsto> 1]"
proof -
  from assms(1) have ascii: "\<forall>c<128. \<not> in_class (Han U) c"
    by (simp add: list_all_iff)
  have cc: "tokens (chineseCharacterRegex U) [scenario_line] = [[0x4F60], [0x597D], [0x4E16], [0x754C]]"
    using scenario_chineseCharacter [OF ascii assms(2-5)] by (simp add: tokens_def)
  have cw: "tokens (chineseWordsRegex U) [scenario_line] = [[0x4F60, 0x597D, 0x4E16, 0x754C]]"
    using scenario_chineseWords [OF ascii assms(2-5)] by (simp add: tokens_def)
  have ew: "tokens englishWordRegex [scenario_line]
              = map runes [''Hello'', ''world'', ''I'll'', ''visit'', ''micro-video'', ''apps'']"
    using scenario_englishWord by (simp add: tokens_def)
  show ?thesis
    unfolding scan_eq scan_state.simps cc cw ew scenario_lower scenario_tally
    by simp
qed

text \<open>
  The theorem at the table that holds the block U+4E00 to U+9FA5, which has been part of
  the Han script since the ideographs were first encoded.
\<close>

theorem scenario_tokens_witness:
  "list_all (\<lambda>c. \<not> in_class (Han basic_tables) c) [0..<128] \<and>
   in_class (Han basic_tables) 0x4F60 \<and> in_class (Han basic_tables) 0x597D \<and>
   in_class (Han basic_tables) 0x4E16 \<and> in_class (Han basic_tables) 0x754C \<and>
   chineseCharList (scan basic_tables [scenario_line]) = [[0x4F60], [0x597D], [0x4E16], [0x754C]] \<and>
   chineseWordsList (scan basic_tables [scenario_line]) = [[0x4F60, 0x597D, 0x4E16, 0x754C]] \<and>
   englishWordList (scan basic_tables [scenario_line])
     = map runes [''Hello'', ''world'', ''I'll'', ''visit'', ''micro-video'', ''apps'']"
proof -
  have a: "list_all (\<lambda>c. \<not> in_class (Han basic_tables) c) [0..<128]"
    by (simp add: list_all_iff basic_tables_def in_class_def)
  have h: "in_class (Han basic_tables) 0x4F60" "in_class (Han basic_tables) 0x597D"
    "in_class (Han basic_tables) 0x4E16" "in_class (Han basic_tables) 0x754C"
    by (simp_all add: basic_tables_def in_class_def)
  from scenario_tokens [OF a h] a h show ?thesis by simp
qed

section \<open>Normalization and counts\<close>


text \<open>
  Claim C2. After the scan, in each of the four categories the counts of the frequency
  map add up to the length of the list: in Go's own 64-bit arithmetic without any
  condition, and as plain integers for every list that a Go slice can hold (the length of
  a slice is itself an \<^verbatim>\<open>int\<close>, so it is below \<open>2 ^ 63\<close>).
\<close>

theorem counts_sum_to_length:
  "(\<Sum>k \<in> dom (frequency_map c (scan U lines)). the (frequency_map c (scan U lines) k))
      = (of_nat (length (duplicated_list c (scan U lines))) :: go_int) \<and>
   (length (duplicated_list c (scan U lines)) < 2 ^ 63 \<longrightarrow>
      (\<Sum>k \<in> dom (frequency_map c (scan U lines)). sint (the (frequency_map c (scan U lines) k)))
        = int (length (duplicated_list c (scan U lines))))"
proof -
  let ?keys = "map (normalize_spec U c) (tokens (pattern U c) lines)"
  have f: "frequency_map c (scan U lines) = tally ?keys"
    and l: "duplicated_list c (scan U lines) = tokens (pattern U c) lines"
    using scan_category [of c U lines] by simp_all
  have total: "(\<Sum>k \<in> set ?keys. count_list ?keys k) = length ?keys"
    by (rule sum_count_set) simp_all
  have "(\<Sum>k \<in> dom (tally ?keys). the (tally ?keys k))
          = (\<Sum>k \<in> set ?keys. (of_nat (count_list ?keys k) :: go_int))"
    unfolding dom_tally by (rule sum.cong) (simp_all add: tally_eq)
  also have "\<dots> = of_nat (\<Sum>k \<in> set ?keys. count_list ?keys k)"
    by (rule of_nat_sum [symmetric])
  also have "\<dots> = of_nat (length ?keys)"
    by (simp only: total)
  finally have wrapped: "(\<Sum>k \<in> dom (tally ?keys). the (tally ?keys k)) = (of_nat (length ?keys) :: go_int)" .
  have exact: "(\<Sum>k \<in> dom (tally ?keys). sint (the (tally ?keys k))) = int (length ?keys)"
    if len: "length ?keys < 2 ^ 63"
  proof -
    have each: "sint (the (tally ?keys k)) = int (count_list ?keys k)" if "k \<in> set ?keys" for k
    proof -
      have "count_list ?keys k \<le> length ?keys" by (rule count_le_length)
      with len have "count_list ?keys k < 2 ^ 63" by simp
      then have "sint (of_nat (count_list ?keys k) :: 64 word) = int (count_list ?keys k)"
        by (rule sint_of_nat_small)
      with that show ?thesis by (simp add: tally_eq)
    qed
    have "(\<Sum>k \<in> dom (tally ?keys). sint (the (tally ?keys k))) = (\<Sum>k \<in> set ?keys. int (count_list ?keys k))"
      unfolding dom_tally by (rule sum.cong) (simp_all add: each)
    also have "\<dots> = int (\<Sum>k \<in> set ?keys. count_list ?keys k)"
      by (rule of_nat_sum [symmetric])
    also have "\<dots> = int (length ?keys)"
      by (simp only: total)
    finally show ?thesis .
  qed
  from wrapped exact show ?thesis using f l by simp
qed

text \<open>
  The theorem at the line \<^verbatim>\<open>cat cat dog\<close>, for English words: three entries.
\<close>

theorem counts_sum_to_length_witness:
  "length (duplicated_list EnglishWord (scan basic_tables [cat_line])) < 2 ^ 63 \<and>
   duplicated_list EnglishWord (scan basic_tables [cat_line]) = map runes [''cat'', ''cat'', ''dog''] \<and>
   (\<Sum>k \<in> dom (frequency_map EnglishWord (scan basic_tables [cat_line])).
       sint (the (frequency_map EnglishWord (scan basic_tables [cat_line]) k))) = 3"
proof -
  have l: "duplicated_list EnglishWord (scan basic_tables [cat_line]) = map runes [''cat'', ''cat'', ''dog'']"
    by (simp add: scan_eq tokens_def cat_line_englishWord)
  then have b: "length (duplicated_list EnglishWord (scan basic_tables [cat_line])) < 2 ^ 63"
    by simp
  from counts_sum_to_length [of EnglishWord basic_tables "[cat_line]"] l b show ?thesis by simp
qed

section \<open>The shape of phrase matches\<close>

lemma rmatch_Cls_shape:
  "(m, rest) \<in> set (rmatch (Cls rs) p cs) \<Longrightarrow> \<exists>c. m = [c] \<and> in_class rs c"
  by (cases cs) (auto split: if_splits)

lemma rmatch_WordB_shape: "(m, rest) \<in> set (rmatch WordB p cs) \<Longrightarrow> m = []"
  by (auto split: if_splits)

lemma rmatch_Cat_shape:
  "(m, rest) \<in> set (rmatch (Cat a b) p cs) \<Longrightarrow>
   \<exists>m1 r1 m2. (m1, r1) \<in> set (rmatch a p cs) \<and> (m2, rest) \<in> set (rmatch b (after p m1) r1) \<and> m = m1 @ m2"
  by auto

lemma englishPhrases_shape:
  assumes "(m, rest) \<in> set (rmatch englishPhrasesRegex p cs)"
  shows "\<exists>c1 mid c2. m = c1 # mid @ [c2] \<and> in_class alnum c1 \<and> in_class alnum c2"
proof -
  from assms obtain m0 r0 m' where
    0: "(m0, r0) \<in> set (rmatch WordB p cs)" and
    1: "(m', rest) \<in> set (rmatch (Cat (Cls alnum)
          (Cat (Star (Cls (perl_w @ perl_s @ apostrophe @ hyphen))) (Cat (Cls alnum) WordB)))
          (after p m0) r0)" and m: "m = m0 @ m'"
    unfolding englishPhrasesRegex_def by (blast dest: rmatch_Cat_shape)
  from 1 obtain m1 r1 m'' where
    2: "(m1, r1) \<in> set (rmatch (Cls alnum) (after p m0) r0)" and
    3: "(m'', rest) \<in> set (rmatch (Cat (Star (Cls (perl_w @ perl_s @ apostrophe @ hyphen)))
          (Cat (Cls alnum) WordB)) (after (after p m0) m1) r1)" and m': "m' = m1 @ m''"
    by (blast dest: rmatch_Cat_shape)
  from 3 obtain mid r2 m''' where
    4: "(m''', rest) \<in> set (rmatch (Cat (Cls alnum) WordB) (after (after (after p m0) m1) mid) r2)"
    and m'': "m'' = mid @ m'''"
    by (blast dest: rmatch_Cat_shape)
  from 4 obtain m3 r3 m4 where
    5: "(m3, r3) \<in> set (rmatch (Cls alnum) (after (after (after p m0) m1) mid) r2)" and
    6: "(m4, rest) \<in> set (rmatch WordB (after (after (after (after p m0) m1) mid) m3) r3)"
    and m''': "m''' = m3 @ m4"
    by (blast dest: rmatch_Cat_shape)
  from 0 have "m0 = []" by (rule rmatch_WordB_shape)
  moreover from 6 have "m4 = []" by (rule rmatch_WordB_shape)
  moreover from 2 obtain c1 where "m1 = [c1]" "in_class alnum c1"
    by (blast dest: rmatch_Cls_shape)
  moreover from 5 obtain c2 where "m3 = [c2]" "in_class alnum c2"
    by (blast dest: rmatch_Cls_shape)
  ultimately show ?thesis using m m' m'' m''' by simp
qed

lemma doExecute_first:
  "doExecute r s pos = Some (b, e) \<Longrightarrow>
   \<exists>m rest alternatives.
     rmatch r (context_before s b) (drop b s) = (m, rest) # alternatives \<and> e = b + length m"
proof (induction r s pos rule: doExecute.induct)
  case (1 r s pos)
  note eq = doExecute.simps [of r s pos]
  show ?case
  proof (cases "rmatch r (context_before s pos) (drop pos s)")
    case Nil
    with "1.prems" "1.IH" eq show ?thesis by (simp split: if_splits)
  next
    case (Cons x xs)
    with "1.prems" eq show ?thesis by (cases x) (auto split: if_splits)
  qed
qed

lemma allMatches_found:
  "(b, e) \<in> set (allMatches r s pos prevMatchEnd) \<Longrightarrow> \<exists>pos'. doExecute r s pos' = Some (b, e)"
proof (induction r s pos prevMatchEnd rule: allMatches.induct)
  case (1 r s pos prevMatchEnd)
  note eq = allMatches.simps [of r s pos prevMatchEnd]
  show ?case
  proof (cases "length s < pos")
    case True
    with "1.prems" eq show ?thesis by simp
  next
    case False
    show ?thesis
    proof (cases "doExecute r s pos")
      case None
      with False "1.prems" eq show ?thesis by simp
    next
      case (Some be)
      obtain b' e' where be: "be = (b', e')" by (cases be)
      show ?thesis
      proof (cases "(b, e) = (b', e')")
        case True
        with Some be show ?thesis by auto
      next
        case other: False
        show ?thesis
        proof (cases "e' = pos")
          case True
          with False Some be other "1.prems" eq
          have "(b, e) \<in> set (allMatches r s (if pos < length s then pos + 1 else length s + 1) (int e'))"
            by (auto split: if_splits)
          with "1.IH"(1) [OF False Some be [symmetric] True] show ?thesis .
        next
          case ne: False
          with False Some be other "1.prems" eq
          have "(b, e) \<in> set (allMatches r s e' (int e'))"
            by (auto split: if_splits)
          with "1.IH"(2) [OF False Some be [symmetric] ne] show ?thesis .
        qed
      qed
    qed
  qed
qed

lemma FindAllString_matches:
  assumes "t \<in> set (FindAllString r s)"
  shows "\<exists>p cs rest. (t, rest) \<in> set (rmatch r p cs)"
proof -
  from assms obtain b e where be: "(b, e) \<in> set (allMatches r s 0 (- 1))"
    and t: "t = take (e - b) (drop b s)"
    by (auto simp: FindAllString_def)
  from allMatches_found [OF be] obtain pos' where "doExecute r s pos' = Some (b, e)" ..
  from doExecute_first [OF this] obtain m rest alternatives where
    r: "rmatch r (context_before s b) (drop b s) = (m, rest) # alternatives" and e: "e = b + length m"
    by blast
  from r have in_r: "(m, rest) \<in> set (rmatch r (context_before s b) (drop b s))" by simp
  then have "drop b s = m @ rest" by (rule rmatch_split)
  with t e have "t = m" by simp
  with in_r show ?thesis by blast
qed

lemma alnum_not_space: "in_class alnum c \<Longrightarrow> \<not> unicode_IsSpace U c"
  by (auto simp: in_class_def alnum_def unicode_IsSpace_def)

lemma TrimSpace_id:
  assumes "\<not> unicode_IsSpace U c1" and "\<not> unicode_IsSpace U c2"
  shows "strings_TrimSpace U (c1 # mid @ [c2]) = c1 # mid @ [c2]"
  using assms by (simp add: strings_TrimSpace_def)

lemma phrase_shape:
  assumes "phrase \<in> set (FindAllString englishPhrasesRegex line)"
  shows "\<exists>c1 mid c2. phrase = c1 # mid @ [c2] \<and> in_class alnum c1 \<and> in_class alnum c2"
proof -
  from FindAllString_matches [OF assms] obtain p cs rest where
    "(phrase, rest) \<in> set (rmatch englishPhrasesRegex p cs)" by blast
  then show ?thesis by (rule englishPhrases_shape)
qed

lemma phrase_trim_identity:
  assumes "phrase \<in> set (FindAllString englishPhrasesRegex line)"
  shows "strings_TrimSpace U phrase = phrase"
proof -
  from phrase_shape [OF assms] obtain c1 mid c2 where
    shape: "phrase = c1 # mid @ [c2]" and a: "in_class alnum c1" "in_class alnum c2"
    by blast
  from a have "strings_TrimSpace U (c1 # mid @ [c2]) = c1 # mid @ [c2]"
    by (intro TrimSpace_id alnum_not_space)
  with shape show ?thesis by simp
qed

text \<open>
  Claim C10. Every match of \<^verbatim>\<open>englishPhrasesRegex\<close> begins and ends with a character of
  \<^verbatim>\<open>[a-zA-Z0-9]\<close> and has at least two characters; \<^verbatim>\<open>strings.TrimSpace\<close> leaves
  it as it is, so its key is the lower-case form of the raw match, and the frequency map of
  phrases counts the lower-case forms of the entries of the phrase list.
\<close>

theorem phrase_tokens_untrimmed:
  assumes "phrase \<in> set (FindAllString englishPhrasesRegex line)"
  shows "in_class alnum (hd phrase) \<and> in_class alnum (last phrase) \<and> 2 \<le> length phrase \<and>
         strings_TrimSpace U phrase = phrase \<and>
         strings_ToLower U (strings_TrimSpace U phrase) = strings_ToLower U phrase \<and>
         englishPhrasesFreq (scan U lines) =
           foldl incr Map.empty (map (strings_ToLower U) (englishPhrasesList (scan U lines)))"
proof -
  from phrase_shape [OF assms] obtain c1 mid c2 where
    shape: "phrase = c1 # mid @ [c2]" and a: "in_class alnum c1" "in_class alnum c2"
    by blast
  have trim: "strings_TrimSpace U phrase = phrase"
    using assms by (rule phrase_trim_identity)
  have keys: "map (\<lambda>phrase. strings_ToLower U (strings_TrimSpace U phrase)) (tokens englishPhrasesRegex lines)
          = map (strings_ToLower U) (tokens englishPhrasesRegex lines)"
    by (rule map_cong) (auto simp: tokens_def phrase_trim_identity)
  have "englishPhrasesFreq (scan U lines) =
          tally (map (\<lambda>phrase. strings_ToLower U (strings_TrimSpace U phrase)) (tokens englishPhrasesRegex lines))"
    by (simp add: scan_eq)
  also have "\<dots> = tally (map (strings_ToLower U) (tokens englishPhrasesRegex lines))"
    by (simp only: keys)
  also have "tokens englishPhrasesRegex lines = englishPhrasesList (scan U lines)"
    by (simp add: scan_eq)
  finally have freq: "englishPhrasesFreq (scan U lines) =
           foldl incr Map.empty (map (strings_ToLower U) (englishPhrasesList (scan U lines)))"
    by (simp only: tally_def)
  from shape a trim freq show ?thesis by simp
qed

text \<open>
  The theorem at the line \<^verbatim>\<open>cat cat dog\<close>, which is one phrase.
\<close>

theorem phrase_tokens_untrimmed_witness:
  "runes ''cat cat dog'' \<in> set (FindAllString englishPhrasesRegex cat_line) \<and>
   strings_TrimSpace basic_tables (runes ''cat cat dog'') = runes ''cat cat dog'' \<and>
   2 \<le> length (runes ''cat cat dog'')"
proof -
  have m: "runes ''cat cat dog'' \<in> set (FindAllString englishPhrasesRegex cat_line)"
    by (simp add: cat_line_englishPhrases)
  from phrase_tokens_untrimmed [OF m, of basic_tables] m show ?thesis by simp
qed

section \<open>Output\<close>

lemma writer_loop:
  "foldl (\<lambda>writer item. writer @ item @ [0x0A]) acc data = acc @ records data"
  by (induction data arbitrary: acc) (simp_all add: records_def)

lemma writeToFile_files:
  "files (writeToFile env filePath data w) path =
     (if path = filePath \<and> os_Create env filePath = None
      then Some (Flush env filePath (records data)) else files w path)"
  by (simp add: writeToFile_def writer_loop Printf_def Let_def split: option.splits)

lemma writeToFile_stdout:
  "stdout (writeToFile env filePath data w) =
     (case os_Create env filePath of
        Some err \<Rightarrow> stdout w @ [create_message filePath err]
      | None \<Rightarrow> stdout w)"
  by (simp add: writeToFile_def Printf_def Let_def create_message_def split: option.splits)

lemma file_names_distinct:
  "distinct [chineseFileDedup, chineseFileDup, englishFileDedup, englishFileDup]"
  by (simp add: chineseFileDedup_def chineseFileDup_def englishFileDedup_def englishFileDup_def)

lemma main_output_files:
  "files (main_output env st w) path =
     (if path = englishFileDup \<and> os_Create env englishFileDup = None
      then Some (Flush env englishFileDup (records (englishWordList st)))
      else if path = englishFileDedup \<and> os_Create env englishFileDedup = None
      then Some (Flush env englishFileDedup (records
             (sortByFrequency (sort_Slice env) (range_englishWordFreq env) (englishWordFreq st))))
      else if path = chineseFileDup \<and> os_Create env chineseFileDup = None
      then Some (Flush env chineseFileDup (records (chineseCharList st)))
      else if path = chineseFileDedup \<and> os_Create env chineseFileDedup = None
      then Some (Flush env chineseFileDedup (records
             (sortByFrequency (sort_Slice env) (range_chineseCharFreq env) (chineseCharFreq st))))
      else files w path)"
  by (simp add: main_output_def Let_def Println_def Printf_def writeToFile_files)

lemma file_names_differ:
  "chineseFileDedup \<noteq> chineseFileDup" "chineseFileDedup \<noteq> englishFileDedup"
  "chineseFileDedup \<noteq> englishFileDup" "chineseFileDup \<noteq> englishFileDedup"
  "chineseFileDup \<noteq> englishFileDup" "englishFileDedup \<noteq> englishFileDup"
  using file_names_distinct by auto

lemma main_output_destination:
  assumes "(path, data) \<in> set (destinations env st)"
  shows "files (main_output env st w) path =
           (if os_Create env path = None then Some (Flush env path (records data)) else files w path)"
proof -
  note ne = file_names_differ file_names_differ [symmetric]
  from assms consider
      "path = chineseFileDedup" "data = sortByFrequency (sort_Slice env) (range_chineseCharFreq env) (chineseCharFreq st)"
    | "path = chineseFileDup" "data = chineseCharList st"
    | "path = englishFileDedup" "data = sortByFrequency (sort_Slice env) (range_englishWordFreq env) (englishWordFreq st)"
    | "path = englishFileDup" "data = englishWordList st"
    by (auto simp: destinations_def)
  then show ?thesis
  proof cases
    case 1 then show ?thesis by (simp add: main_output_files ne)
  next
    case 2 then show ?thesis by (simp add: main_output_files ne)
  next
    case 3 then show ?thesis by (simp add: main_output_files ne)
  next
    case 4 then show ?thesis by (simp add: main_output_files ne)
  qed
qed

lemma main_output_stdout:
  "stdout (main_output env st w) =
     stdout w @ concat (map (\<lambda>(path, data). case os_Create env path of
                                Some err \<Rightarrow> [create_message path err] | None \<Rightarrow> [])
                            (destinations env st))
     @ [''All output files written successfully.'' @ newline]"
  by (simp add: main_output_def Let_def Println_def Printf_def writeToFile_stdout destinations_def
      split: option.splits)

lemma main_reaches_output:
  assumes "dialog_Load env = Inr inputFile" and "inputFile \<noteq> []"
    and "os_Open env inputFile = None" and "scanner_Err env = None"
  shows "main env w =
           main_output env (scan (unicode env) (scanner_lines env))
             (Printf (Println w ''Select the input file:'')
                (''Selected input file: '' @ inputFile @ newline))"
  using assms by (simp add: main_def Let_def)

text \<open>
  Claim C6. When the scanner ends with an error, \<^verbatim>\<open>main\<close> leaves every file as it
  was: nothing is created and nothing is written. When the run got as far as the scan, the
  last thing it prints is the read error.
\<close>

theorem read_error_no_output:
  assumes "scanner_Err env = Some err"
  shows "files (main env w) = files w \<and>
         (\<forall>inputFile. dialog_Load env = Inr inputFile \<and> inputFile \<noteq> [] \<and> os_Open env inputFile = None \<longrightarrow>
            stdout (main env w) =
              stdout w @ [''Select the input file:'' @ newline,
                          ''Selected input file: '' @ inputFile @ newline,
                          ''Error reading input file: '' @ err @ newline])"
  using assms
  by (simp add: main_def Let_def Println_def Printf_def split: sum.splits option.splits)

text \<open>
  The theorem at a run whose scanner fails on an overlong line.
\<close>

theorem read_error_no_output_witness:
  "scanner_Err read_error_run = Some ''bufio.Scanner: token too long'' \<and>
   dialog_Load read_error_run = Inr ''input.txt'' \<and> os_Open read_error_run ''input.txt'' = None \<and>
   files (main read_error_run nothing_yet) = Map.empty \<and>
   stdout (main read_error_run nothing_yet) =
     [''Select the input file:'' @ newline,
      ''Selected input file: input.txt'' @ newline,
      ''Error reading input file: bufio.Scanner: token too long'' @ newline]"
proof -
  have e: "scanner_Err read_error_run = Some ''bufio.Scanner: token too long''"
    and d: "dialog_Load read_error_run = Inr ''input.txt''"
    and o: "os_Open read_error_run ''input.txt'' = None"
    by (simp_all add: read_error_run_def healthy_run_def)
  from read_error_no_output [OF e, of nothing_yet] d o e show ?thesis
    by (simp add: nothing_yet_def)
qed



text \<open>
  Claim C8 says that every failure at a sink is surfaced, a failed write or flush as well
  as a failed creation. \<^verbatim>\<open>writeToFile\<close> reports a failed \<^verbatim>\<open>os.Create\<close>, but it
  discards the results of \<^verbatim>\<open>WriteString\<close> and \<^verbatim>\<open>Flush\<close>. In the run below the
  file \<^verbatim>\<open>deduplicated_english.txt\<close> is created and the write to it fails before
  anything reaches it: the file is left empty instead of holding the two records that the
  same run without the fault writes, no message mentions the failure, and the run ends with
  \<^verbatim>\<open>All output files written successfully.\<close>
\<close>

theorem write_failure_unreported:
  "os_Create disk_full_run englishFileDedup = None \<and>
   write_fault disk_full_run englishFileDedup = Some 0 \<and>
   files (main healthy_run nothing_yet) englishFileDedup = Some (runes ''cat'' @ [0x0A] @ runes ''dog'' @ [0x0A]) \<and>
   files (main disk_full_run nothing_yet) englishFileDedup = Some [] \<and>
   stdout (main disk_full_run nothing_yet) =
     [''Select the input file:'' @ newline,
      ''Selected input file: input.txt'' @ newline,
      ''All output files written successfully.'' @ newline]"
proof -
  have r: "sortByFrequency insertionSort [runes ''dog'', runes ''cat''] [runes ''cat'' \<mapsto> 2, runes ''dog'' \<mapsto> 1]
             = [runes ''cat'', runes ''dog'']"
    by (simp add: sortByFrequency_def insertionSort_def runes_def by_Value_def)
  have h: "main healthy_run nothing_yet =
    main_output healthy_run (scan basic_tables [cat_line])
      (Printf (Println nothing_yet ''Select the input file:'') (''Selected input file: '' @ ''input.txt'' @ newline))"
    using main_reaches_output [of healthy_run "''input.txt''" nothing_yet]
    by (simp add: healthy_run_def)
  have d: "main disk_full_run nothing_yet =
    main_output disk_full_run (scan basic_tables [cat_line])
      (Printf (Println nothing_yet ''Select the input file:'') (''Selected input file: '' @ ''input.txt'' @ newline))"
    using main_reaches_output [of disk_full_run "''input.txt''" nothing_yet]
    by (simp add: disk_full_run_def healthy_run_def)
  have 1: "files (main healthy_run nothing_yet) englishFileDedup = Some (runes ''cat'' @ [0x0A] @ runes ''dog'' @ [0x0A])"
    unfolding h main_output_files
    by (simp add: healthy_run_def cat_line_scan r Flush_def records_def file_names_differ)
  have 2: "files (main disk_full_run nothing_yet) englishFileDedup = Some []"
    unfolding d main_output_files
    by (simp add: disk_full_run_def healthy_run_def cat_line_scan r Flush_def records_def
          file_names_differ)
  have 3: "stdout (main disk_full_run nothing_yet) =
     [''Select the input file:'' @ newline,
      ''Selected input file: input.txt'' @ newline,
      ''All output files written successfully.'' @ newline]"
    unfolding d main_output_stdout
    by (simp add: disk_full_run_def healthy_run_def destinations_def Println_def Printf_def nothing_yet_def)
  show ?thesis using 1 2 3 by (simp add: disk_full_run_def healthy_run_def)
qed

text \<open>
  Claim C9. The end of \<^verbatim>\<open>main\<close> does not read the frequency map and the list of the
  Chinese words nor those of the English phrases: replacing them changes nothing. A run
  changes no file other than the four destinations, and these hold the ranked Chinese
  characters, the list of Chinese characters, the ranked English words and the list of
  English words. The scan nevertheless builds the list and the frequency map of the
  Chinese words and of the English phrases from all their matches.
\<close>

theorem only_two_categories_written:
  "main_output env (st\<lparr>chineseWordsFreq := f1, englishPhrasesFreq := f2,
                        chineseWordsList := l1, englishPhrasesList := l2\<rparr>) w
     = main_output env st w \<and>
   (path \<notin> {chineseFileDedup, chineseFileDup, englishFileDedup, englishFileDup} \<longrightarrow>
      files (main env w) path = files w path) \<and>
   destinations env st =
     [(chineseFileDedup, sortByFrequency (sort_Slice env) (range_chineseCharFreq env) (chineseCharFreq st)),
      (chineseFileDup, chineseCharList st),
      (englishFileDedup, sortByFrequency (sort_Slice env) (range_englishWordFreq env) (englishWordFreq st)),
      (englishFileDup, englishWordList st)] \<and>
   (\<forall>(path, data) \<in> set (destinations env st).
      files (main_output env st w) path =
        (if os_Create env path = None then Some (Flush env path (records data)) else files w path)) \<and>
   chineseWordsList (scan U lines) = concat (map (FindAllString (chineseWordsRegex U)) lines) \<and>
   chineseWordsFreq (scan U lines) = foldl incr Map.empty (chineseWordsList (scan U lines)) \<and>
   englishPhrasesList (scan U lines) = concat (map (FindAllString englishPhrasesRegex) lines) \<and>
   englishPhrasesFreq (scan U lines) =
     foldl incr Map.empty (map (\<lambda>phrase. strings_ToLower U (strings_TrimSpace U phrase))
                                (englishPhrasesList (scan U lines)))"
proof -
  have 1: "main_output env (st\<lparr>chineseWordsFreq := f1, englishPhrasesFreq := f2,
                        chineseWordsList := l1, englishPhrasesList := l2\<rparr>) w = main_output env st w"
    by (simp add: main_output_def)
  have 2: "files (main env w) path = files w path"
    if "path \<notin> {chineseFileDedup, chineseFileDup, englishFileDedup, englishFileDup}"
    using that
    by (simp add: main_def Let_def Println_def Printf_def main_output_files
          split: sum.splits option.splits)
  have 3: "\<forall>(path, data) \<in> set (destinations env st).
      files (main_output env st w) path =
        (if os_Create env path = None then Some (Flush env path (records data)) else files w path)"
    using main_output_destination [of _ _ env st w] by blast
  have 4: "chineseWordsList (scan U lines) = concat (map (FindAllString (chineseWordsRegex U)) lines)"
    "chineseWordsFreq (scan U lines) = foldl incr Map.empty (chineseWordsList (scan U lines))"
    "englishPhrasesList (scan U lines) = concat (map (FindAllString englishPhrasesRegex) lines)"
    "englishPhrasesFreq (scan U lines) =
     foldl incr Map.empty (map (\<lambda>phrase. strings_ToLower U (strings_TrimSpace U phrase))
                                (englishPhrasesList (scan U lines)))"
    by (simp_all add: scan_eq tokens_def tally_def)
  from 1 2 3 4 show ?thesis by (simp add: destinations_def)
qed

text \<open>
  The theorem at the run over the line \<^verbatim>\<open>cat cat dog\<close>: the phrase list holds the
  phrase, and no file for phrases appears.
\<close>

theorem only_two_categories_written_witness:
  "''duplicated_phrases.txt'' \<notin> {chineseFileDedup, chineseFileDup, englishFileDedup, englishFileDup} \<and>
   files (main healthy_run nothing_yet) ''duplicated_phrases.txt'' = None \<and>
   englishPhrasesList (scan basic_tables [cat_line]) = [runes ''cat cat dog''] \<and>
   (englishFileDup, map runes [''cat'', ''cat'', ''dog''])
     \<in> set (destinations healthy_run (scan basic_tables [cat_line])) \<and>
   files (main_output healthy_run (scan basic_tables [cat_line]) nothing_yet) englishFileDup
     = Some (records (map runes [''cat'', ''cat'', ''dog'']))"
proof -
  have n: "''duplicated_phrases.txt'' \<notin> {chineseFileDedup, chineseFileDup, englishFileDedup, englishFileDup}"
    by (simp add: chineseFileDedup_def chineseFileDup_def englishFileDedup_def englishFileDup_def)
  have d: "(englishFileDup, map runes [''cat'', ''cat'', ''dog''])
     \<in> set (destinations healthy_run (scan basic_tables [cat_line]))"
    by (simp add: destinations_def cat_line_scan)
  have c: "os_Create healthy_run englishFileDup = None" "write_fault healthy_run englishFileDup = None"
    by (simp_all add: healthy_run_def)
  note t = only_two_categories_written
         [where env = healthy_run and st = "scan basic_tables [cat_line]" and w = nothing_yet
            and path = "''duplicated_phrases.txt''" and U = basic_tables and lines = "[cat_line]"]
  from t n have 1: "files (main healthy_run nothing_yet) ''duplicated_phrases.txt'' = None"
    by (simp add: nothing_yet_def)
  from t have 2: "englishPhrasesList (scan basic_tables [cat_line]) = [runes ''cat cat dog'']"
    by (simp add: cat_line_englishPhrases)
  from t have "\<forall>(path, data) \<in> set (destinations healthy_run (scan basic_tables [cat_line])).
      files (main_output healthy_run (scan basic_tables [cat_line]) nothing_yet) path =
        (if os_Create healthy_run path = None then Some (Flush healthy_run path (records data))
         else files nothing_yet path)"
    by blast
  with d c have 3: "files (main_output healthy_run (scan basic_tables [cat_line]) nothing_yet) englishFileDup
     = Some (records (map runes [''cat'', ''cat'', ''dog'']))"
    by (auto simp: Flush_def)
  from n 1 2 d 3 show ?thesis by blast
qed

end
